theory Spec2Isabelle
  imports Main "HOL-Library.Sublist"
begin

section \<open>Data model\<close>

text \<open>
  The dashboard script \<^verbatim>\<open>galaxy_dashboard.py\<close> works on pandas data frames that were
  loaded by \<^verbatim>\<open>load_csv\<close>, which parses the \<^verbatim>\<open>timestamp\<close> column with
  \<^verbatim>\<open>pd.to_datetime\<close> and returns \<^verbatim>\<open>None\<close> when reading or parsing raises.
  A parsed column is a datetime column: every cell is a count of nanoseconds or the
  missing value \<^verbatim>\<open>NaT\<close> (a blank cell of the file), and the column as a whole is
  either timezone-naive, the count being wall-clock time, or timezone-aware at the UTC
  offset written in the file, the count being UTC time. (Cells of one column at
  different offsets do not make a datetime column and are not modelled.) A
  \<^verbatim>\<open>datetime.date\<close> is a calendar day, modelled by its day number.
\<close>

type_synonym date = int
type_synonym utc_offset = int

definition ns_per_day :: int where
  "ns_per_day = 86400000000000"

text \<open>
  A row of a frame: the cell of its timestamp column (\<open>None\<close> for \<^verbatim>\<open>NaT\<close>) and
  everything else the row carries (index label and the other columns), which the three
  helpers never look at. A frame: the timezone of its timestamp column (\<open>None\<close> for a
  naive column, otherwise the UTC offset in nanoseconds) and its rows in order.
\<close>

record 'a row =
  timestamp :: "int option"
  cols :: 'a

record 'a dataframe =
  tz :: "utc_offset option"
  rows :: "'a row list"

text \<open>
  The scalars that pandas hands out: \<^verbatim>\<open>Series.min()\<close> gives a \<^verbatim>\<open>Timestamp\<close> with the
  timezone of the column, or \<^verbatim>\<open>NaT\<close>; \<^verbatim>\<open>Timestamp.date()\<close> gives a
  \<^verbatim>\<open>datetime.date\<close>, and \<^verbatim>\<open>NaT.date()\<close> gives \<^verbatim>\<open>NaT\<close> again.
\<close>

datatype pd_timestamp = NaT | Timestamp int "utc_offset option"

datatype pd_date = NaT_date | Date date

text \<open>
  \<^verbatim>\<open>None\<close> for a frame that \<^verbatim>\<open>load_csv\<close> could not read is \<open>None\<close> of
  \<open>'a dataframe option\<close>. Exceptions are values of \<open>py_error\<close>; the calls into
  streamlit that a helper makes are returned as a list, in the order they are made.
  The markdown box of the range error prints both bounds with an f-string, whatever the
  upper bound is. (The non-ASCII pictographs of the messages are left out of the
  strings.)
\<close>

datatype py_error = ValueError | TypeError

datatype st_call =
  St_error string
  | St_markdown_date_range_error pd_date "pd_date option"

section \<open>Helpers of the script\<close>

subsection \<open>Dates of timestamps\<close>

text \<open>
  \<^verbatim>\<open>Timestamp.date()\<close> and \<^verbatim>\<open>Series.dt.date\<close> give the calendar date of the
  wall-clock time, the time of day discarded: for an aware timestamp the UTC offset is
  added first. Discarding the time of day is the floor division by the length of a day
  (also before the epoch, since \<open>div\<close> on \<open>int\<close> rounds down).
\<close>

definition wall_clock :: "utc_offset option \<Rightarrow> int \<Rightarrow> int" where
  "wall_clock z v = (case z of None \<Rightarrow> v | Some off \<Rightarrow> v + off)"

fun date_of :: "pd_timestamp \<Rightarrow> pd_date" where
  "date_of NaT = NaT_date"
| "date_of (Timestamp v z) = Date (wall_clock z v div ns_per_day)"

text \<open>The cell of a row as a scalar of the frame's column.\<close>

definition cell :: "'a dataframe \<Rightarrow> 'a row \<Rightarrow> pd_timestamp" where
  "cell df r = (case timestamp r of None \<Rightarrow> NaT | Some v \<Rightarrow> Timestamp v (tz df))"

subsection \<open>\<^verbatim>\<open>get_available_date_range\<close>\<close>

text \<open>
  \<^verbatim>\<open>df["timestamp"].min()\<close> and \<^verbatim>\<open>.max()\<close> skip the missing cells and compare the
  stored counts; on a column with no other cells they give \<^verbatim>\<open>NaT\<close>.
\<close>

fun dropna :: "'b option list \<Rightarrow> 'b list" where
  "dropna [] = []"
| "dropna (None # xs) = dropna xs"
| "dropna (Some v # xs) = v # dropna xs"

definition series_min :: "'a dataframe \<Rightarrow> pd_timestamp" where
  "series_min df =
     (case dropna (map timestamp (rows df)) of
        [] \<Rightarrow> NaT
      | v # vs \<Rightarrow> Timestamp (fold min vs v) (tz df))"

definition series_max :: "'a dataframe \<Rightarrow> pd_timestamp" where
  "series_max df =
     (case dropna (map timestamp (rows df)) of
        [] \<Rightarrow> NaT
      | v # vs \<Rightarrow> Timestamp (fold max vs v) (tz df))"

text \<open>
  Ordering two scalars with \<^verbatim>\<open><\<close> or \<^verbatim>\<open>>\<close>: every comparison with \<^verbatim>\<open>NaT\<close> is
  false, two naive timestamps compare by wall-clock time, two aware ones by UTC time,
  and a naive with an aware one raises \<^verbatim>\<open>TypeError\<close>.
\<close>

fun ts_lt :: "pd_timestamp \<Rightarrow> pd_timestamp \<Rightarrow> py_error + bool" where
  "ts_lt NaT y = Inr False"
| "ts_lt (Timestamp a za) NaT = Inr False"
| "ts_lt (Timestamp a None) (Timestamp b None) = Inr (a < b)"
| "ts_lt (Timestamp a (Some oa)) (Timestamp b (Some ob)) = Inr (a < b)"
| "ts_lt (Timestamp a None) (Timestamp b (Some ob)) = Inl TypeError"
| "ts_lt (Timestamp a (Some oa)) (Timestamp b None) = Inl TypeError"

definition ts_gt :: "pd_timestamp \<Rightarrow> pd_timestamp \<Rightarrow> py_error + bool" where
  "ts_gt x y = ts_lt y x"

text \<open>
  Python's builtin \<^verbatim>\<open>min\<close> and \<^verbatim>\<open>max\<close> raise \<^verbatim>\<open>ValueError\<close> on an empty list;
  otherwise they start from the first item and replace the kept item by a later one
  that is smaller (greater) than it.
\<close>

fun py_min_loop :: "pd_timestamp \<Rightarrow> pd_timestamp list \<Rightarrow> py_error + pd_timestamp" where
  "py_min_loop m [] = Inr m"
| "py_min_loop m (x # xs) =
     (case ts_lt x m of
        Inl e \<Rightarrow> Inl e
      | Inr b \<Rightarrow> py_min_loop (if b then x else m) xs)"

fun py_max_loop :: "pd_timestamp \<Rightarrow> pd_timestamp list \<Rightarrow> py_error + pd_timestamp" where
  "py_max_loop m [] = Inr m"
| "py_max_loop m (x # xs) =
     (case ts_gt x m of
        Inl e \<Rightarrow> Inl e
      | Inr b \<Rightarrow> py_max_loop (if b then x else m) xs)"

fun py_min :: "pd_timestamp list \<Rightarrow> py_error + pd_timestamp" where
  "py_min [] = Inl ValueError"
| "py_min (x # xs) = py_min_loop x xs"

fun py_max :: "pd_timestamp list \<Rightarrow> py_error + pd_timestamp" where
  "py_max [] = Inl ValueError"
| "py_max (x # xs) = py_max_loop x xs"

text \<open>The \<^verbatim>\<open>for df in dfs\<close> loop, with \<^verbatim>\<open>valid_dates\<close> as the accumulator.\<close>

fun collect_valid_dates ::
  "'a dataframe option list \<Rightarrow> pd_timestamp list \<Rightarrow> pd_timestamp list" where
  "collect_valid_dates [] valid_dates = valid_dates"
| "collect_valid_dates (None # dfs) valid_dates = collect_valid_dates dfs valid_dates"
| "collect_valid_dates (Some df # dfs) valid_dates =
     (if rows df \<noteq> [] then
        collect_valid_dates dfs (valid_dates @ [series_min df, series_max df])
      else collect_valid_dates dfs valid_dates)"

definition get_available_date_range ::
  "'a dataframe option list \<Rightarrow> py_error + (pd_date option \<times> pd_date option)" where
  "get_available_date_range dfs =
     (let valid_dates = collect_valid_dates dfs [] in
      if valid_dates = [] then Inr (None, None)
      else
        (case py_min valid_dates of
           Inl e \<Rightarrow> Inl e
         | Inr lo \<Rightarrow>
             (case py_max valid_dates of
                Inl e \<Rightarrow> Inl e
              | Inr hi \<Rightarrow> Inr (Some (date_of lo), Some (date_of hi)))))"

subsection \<open>\<^verbatim>\<open>validate_date_range\<close>\<close>

text \<open>
  The checks in the order of the source: absent lower bound, start after end, then
  \<^verbatim>\<open>end < min_date or start > max_date\<close>, whose right operand is only evaluated when
  the left one is false. Ordering a date against \<^verbatim>\<open>None\<close> raises
  \<^verbatim>\<open>TypeError\<close>, and so does ordering it against \<^verbatim>\<open>NaT\<close> in pandas 2.
\<close>

fun date_lt :: "date \<Rightarrow> pd_date option \<Rightarrow> py_error + bool" where
  "date_lt d (Some (Date b)) = Inr (d < b)"
| "date_lt d (Some NaT_date) = Inl TypeError"
| "date_lt d None = Inl TypeError"

fun date_gt :: "date \<Rightarrow> pd_date option \<Rightarrow> py_error + bool" where
  "date_gt d (Some (Date b)) = Inr (d > b)"
| "date_gt d (Some NaT_date) = Inl TypeError"
| "date_gt d None = Inl TypeError"

definition py_or :: "py_error + bool \<Rightarrow> py_error + bool \<Rightarrow> py_error + bool" where
  "py_or a b = (case a of Inl e \<Rightarrow> Inl e | Inr x \<Rightarrow> if x then Inr True else b)"

fun validate_date_range ::
  "date \<Rightarrow> date \<Rightarrow> pd_date option \<Rightarrow> pd_date option \<Rightarrow> py_error + (bool \<times> st_call list)" where
  "validate_date_range start end None max_date = Inr (False, [])"
| "validate_date_range start end (Some min_date) max_date =
     (if start > end then
        Inr (False, [St_error ''Start date cannot be after End date.''])
      else
        (case py_or (date_lt end (Some min_date)) (date_gt start max_date) of
           Inl e \<Rightarrow> Inl e
         | Inr outside \<Rightarrow>
             if outside then
               Inr (False, [St_markdown_date_range_error min_date max_date])
             else Inr (True, [])))"

subsection \<open>\<^verbatim>\<open>filter_dates\<close>\<close>

text \<open>
  \<^verbatim>\<open>df["timestamp"].dt.date\<close> is the column of the dates of the cells, \<^verbatim>\<open>NaT\<close> for
  a missing cell. Comparing that column with a date gives false at every missing cell.
  \<^verbatim>\<open>df[mask]\<close> with a boolean series keeps the rows whose mask entry is true, in the
  order of the frame; the mask is the elementwise \<^verbatim>\<open>&\<close> of the two comparisons.
\<close>

definition dt_date :: "'a dataframe \<Rightarrow> pd_date list" where
  "dt_date df = map (\<lambda>r. date_of (cell df r)) (rows df)"

fun series_ge :: "pd_date \<Rightarrow> date \<Rightarrow> bool" where
  "series_ge NaT_date d = False"
| "series_ge (Date x) d = (x \<ge> d)"

fun series_le :: "pd_date \<Rightarrow> date \<Rightarrow> bool" where
  "series_le NaT_date d = False"
| "series_le (Date x) d = (x \<le> d)"

definition boolean_index :: "'a list \<Rightarrow> bool list \<Rightarrow> 'a list" where
  "boolean_index rs bmask = map fst (filter snd (zip rs bmask))"

definition filter_dates :: "'a dataframe option \<Rightarrow> date \<Rightarrow> date \<Rightarrow> 'a dataframe option" where
  "filter_dates df start end =
     (case df of
        None \<Rightarrow> None
      | Some d \<Rightarrow>
          (let ge_start = map (\<lambda>x. series_ge x start) (dt_date d);
               le_end = map (\<lambda>x. series_le x end) (dt_date d)
           in Some (d\<lparr>rows := boolean_index (rows d) (map2 (\<and>) ge_start le_end)\<rparr>)))"

subsection \<open>The top level of the script, up to the dashboards\<close>

text \<open>
  Lines 152 to 180: the bounds of the loaded frames, \<^verbatim>\<open>st.stop()\<close> when there are
  none, the two dates picked in the sidebar (inputs of the model), \<^verbatim>\<open>st.stop()\<close> when
  the validation fails, and the same filter on every frame.
\<close>

datatype 'a run =
  Stopped "st_call list"
  | Filtered "'a dataframe option list"

definition script_run ::
  "'a dataframe option list \<Rightarrow> date \<Rightarrow> date \<Rightarrow> py_error + 'a run" where
  "script_run dfs start_date end_date =
     (case get_available_date_range dfs of
        Inl e \<Rightarrow> Inl e
      | Inr (min_date, max_date) \<Rightarrow>
          if min_date = None then Inr (Stopped [St_error ''No valid data found.''])
          else
            (case validate_date_range start_date end_date min_date max_date of
               Inl e \<Rightarrow> Inl e
             | Inr (ok, calls) \<Rightarrow>
                 if \<not> ok then Inr (Stopped calls)
                 else Inr (Filtered (map (\<lambda>df. filter_dates df start_date end_date) dfs))))"

subsection \<open>A notion for the proofs\<close>

text \<open>A list whose timestamps all have the timezone \<open>z\<close>.\<close>

definition one_tz :: "utc_offset option \<Rightarrow> pd_timestamp list \<Rightarrow> bool" where
  "one_tz z xs \<longleftrightarrow> (\<forall>x \<in> set xs. x = NaT \<or> (\<exists>v. x = Timestamp v z))"


section \<open>Dates and days\<close>

lemma ns_per_day_pos: "0 < ns_per_day"
  by (simp add: ns_per_day_def)

lemma wall_clock_mono: "a \<le> b \<Longrightarrow> wall_clock z a \<le> wall_clock z b"
  by (simp add: wall_clock_def split: option.splits)

lemma day_mono: "a \<le> b \<Longrightarrow> wall_clock z a div ns_per_day \<le> wall_clock z b div ns_per_day"
  using ns_per_day_pos wall_clock_mono [of a b z] by (intro zdiv_mono1) simp_all

lemma day_floor: "t div ns_per_day * ns_per_day \<le> t \<and> t < (t div ns_per_day + 1) * ns_per_day"
proof -
  define q where "q = t div ns_per_day"
  define m where "m = t mod ns_per_day"
  have "q * ns_per_day + m = t"
    unfolding q_def m_def by (rule div_mult_mod_eq)
  moreover have "0 \<le> m" "m < ns_per_day"
    unfolding m_def using ns_per_day_pos by simp_all
  ultimately have "q * ns_per_day \<le> t \<and> t < (q + 1) * ns_per_day"
    by (simp add: algebra_simps)
  then show ?thesis
    unfolding q_def .
qed

lemma cell_Some: "timestamp r = Some v \<Longrightarrow> cell df r = Timestamp v (tz df)"
  by (simp add: cell_def)

lemma cell_None: "timestamp r = None \<Longrightarrow> cell df r = NaT"
  by (simp add: cell_def)

lemma cell_rows_update: "cell (df\<lparr>rows := rs\<rparr>) r = cell df r"
  by (cases "timestamp r") (simp_all add: cell_def)

section \<open>Minimum and maximum of a column\<close>

lemma set_dropna: "set (dropna xs) = {v. Some v \<in> set xs}"
  by (induction xs rule: dropna.induct) auto

lemma valid_values:
  "v \<in> set (dropna (map timestamp rs)) \<longleftrightarrow> (\<exists>r \<in> set rs. timestamp r = Some v)"
proof (induction rs)
  case Nil
  show ?case by simp
next
  case (Cons a rs)
  then show ?case by (cases "timestamp a") auto
qed

lemma series_min_NaT_iff:
  "series_min df = NaT \<longleftrightarrow> (\<forall>r \<in> set (rows df). timestamp r = None)"
proof (cases "dropna (map timestamp (rows df))")
  case Nil
  have "\<not> (\<exists>r \<in> set (rows df). timestamp r = Some v)" for v
    using valid_values [of v "rows df"] Nil by simp
  then have "\<forall>r \<in> set (rows df). timestamp r = None"
    by (metis option.exhaust)
  with Nil show ?thesis by (simp add: series_min_def)
next
  case (Cons v vs)
  then have "v \<in> set (dropna (map timestamp (rows df)))" by simp
  then have "\<exists>r \<in> set (rows df). timestamp r = Some v" by (simp add: valid_values)
  then have "\<not> (\<forall>r \<in> set (rows df). timestamp r = None)" by auto
  with Cons show ?thesis by (simp add: series_min_def)
qed

lemma series_max_NaT_iff:
  "series_max df = NaT \<longleftrightarrow> (\<forall>r \<in> set (rows df). timestamp r = None)"
proof (cases "dropna (map timestamp (rows df))")
  case Nil
  have "\<not> (\<exists>r \<in> set (rows df). timestamp r = Some v)" for v
    using valid_values [of v "rows df"] Nil by simp
  then have "\<forall>r \<in> set (rows df). timestamp r = None"
    by (metis option.exhaust)
  with Nil show ?thesis by (simp add: series_max_def)
next
  case (Cons v vs)
  then have "v \<in> set (dropna (map timestamp (rows df)))" by simp
  then have "\<exists>r \<in> set (rows df). timestamp r = Some v" by (simp add: valid_values)
  then have "\<not> (\<forall>r \<in> set (rows df). timestamp r = None)" by auto
  with Cons show ?thesis by (simp add: series_max_def)
qed

lemma series_min_Timestamp:
  assumes "series_min df = Timestamp a z"
  shows "z = tz df" and "\<exists>r \<in> set (rows df). timestamp r = Some a"
    and "r \<in> set (rows df) \<Longrightarrow> timestamp r = Some v \<Longrightarrow> a \<le> v"
proof -
  from assms obtain x xs where vs: "dropna (map timestamp (rows df)) = x # xs"
    by (cases "dropna (map timestamp (rows df))") (simp_all add: series_min_def)
  with assms have z: "z = tz df" and a: "a = fold min xs x"
    by (simp_all add: series_min_def)
  have aM: "a = Min (set (x # xs))" unfolding a by (rule Min.set_eq_fold [symmetric])
  then have "a \<in> set (x # xs)" using Min_in [of "set (x # xs)"] by simp
  then have mem: "\<exists>r \<in> set (rows df). timestamp r = Some a"
    using valid_values [of a "rows df"] vs by simp
  have le: "a \<le> v" if "r \<in> set (rows df)" "timestamp r = Some v"
  proof -
    from that have "v \<in> set (x # xs)" using valid_values [of v "rows df"] vs by auto
    then show ?thesis unfolding aM by (intro Min_le) simp_all
  qed
  from z show "z = tz df" .
  from mem show "\<exists>r \<in> set (rows df). timestamp r = Some a" .
  show "r \<in> set (rows df) \<Longrightarrow> timestamp r = Some v \<Longrightarrow> a \<le> v" using le .
qed

lemma series_max_Timestamp:
  assumes "series_max df = Timestamp a z"
  shows "z = tz df" and "\<exists>r \<in> set (rows df). timestamp r = Some a"
    and "r \<in> set (rows df) \<Longrightarrow> timestamp r = Some v \<Longrightarrow> v \<le> a"
proof -
  from assms obtain x xs where vs: "dropna (map timestamp (rows df)) = x # xs"
    by (cases "dropna (map timestamp (rows df))") (simp_all add: series_max_def)
  with assms have z: "z = tz df" and a: "a = fold max xs x"
    by (simp_all add: series_max_def)
  have aM: "a = Max (set (x # xs))" unfolding a by (rule Max.set_eq_fold [symmetric])
  then have "a \<in> set (x # xs)" using Max_in [of "set (x # xs)"] by simp
  then have mem: "\<exists>r \<in> set (rows df). timestamp r = Some a"
    using valid_values [of a "rows df"] vs by simp
  have le: "v \<le> a" if "r \<in> set (rows df)" "timestamp r = Some v"
  proof -
    from that have "v \<in> set (x # xs)" using valid_values [of v "rows df"] vs by auto
    then show ?thesis unfolding aM by (intro Max_ge) simp_all
  qed
  from z show "z = tz df" .
  from mem show "\<exists>r \<in> set (rows df). timestamp r = Some a" .
  show "r \<in> set (rows df) \<Longrightarrow> timestamp r = Some v \<Longrightarrow> v \<le> a" using le .
qed

lemma series_min_valid:
  assumes "r \<in> set (rows df)" and "timestamp r = Some v"
  shows "\<exists>a. series_min df = Timestamp a (tz df) \<and> a \<le> v"
proof -
  from assms have "series_min df \<noteq> NaT" by (auto simp: series_min_NaT_iff)
  then obtain a z where s: "series_min df = Timestamp a z" by (cases "series_min df") auto
  from series_min_Timestamp(1) [OF s] series_min_Timestamp(3) [OF s assms] s
  show ?thesis by simp
qed

lemma series_max_valid:
  assumes "r \<in> set (rows df)" and "timestamp r = Some v"
  shows "\<exists>a. series_max df = Timestamp a (tz df) \<and> v \<le> a"
proof -
  from assms have "series_max df \<noteq> NaT" by (auto simp: series_max_NaT_iff)
  then obtain a z where s: "series_max df = Timestamp a z" by (cases "series_max df") auto
  from series_max_Timestamp(1) [OF s] series_max_Timestamp(3) [OF s assms] s
  show ?thesis by simp
qed

section \<open>The loop of the range computer\<close>

lemma collect_valid_dates_acc:
  "collect_valid_dates dfs acc = acc @ collect_valid_dates dfs []"
proof (induction dfs arbitrary: acc)
  case Nil
  show ?case by simp
next
  case (Cons df dfs)
  show ?case
  proof (cases df)
    case None
    then show ?thesis using Cons.IH [of acc] by simp
  next
    case (Some d)
    then show ?thesis
      using Cons.IH [of acc] Cons.IH [of "acc @ [series_min d, series_max d]"]
        Cons.IH [of "[series_min d, series_max d]"]
      by simp
  qed
qed

lemma collect_valid_dates_Some:
  "collect_valid_dates (Some d # dfs) [] =
     (if rows d \<noteq> [] then series_min d # series_max d # collect_valid_dates dfs []
      else collect_valid_dates dfs [])"
  using collect_valid_dates_acc [of dfs "[series_min d, series_max d]"] by simp

lemma set_collect_valid_dates:
  "set (collect_valid_dates dfs []) =
     (\<Union>d \<in> {d. Some d \<in> set dfs \<and> rows d \<noteq> []}. {series_min d, series_max d})"
proof (induction dfs)
  case Nil
  show ?case by simp
next
  case (Cons df dfs)
  show ?case
  proof (cases df)
    case None
    then show ?thesis using Cons by simp
  next
    case (Some d)
    then show ?thesis using Cons
      by (simp only: collect_valid_dates_Some) auto
  qed
qed

lemma collect_valid_dates_empty_iff:
  "collect_valid_dates dfs [] = [] \<longleftrightarrow> (\<forall>d. Some d \<in> set dfs \<longrightarrow> rows d = [])"
proof -
  have "collect_valid_dates dfs [] = [] \<longleftrightarrow> set (collect_valid_dates dfs []) = {}" by simp
  also have "\<dots> \<longleftrightarrow> (\<forall>d. Some d \<in> set dfs \<longrightarrow> rows d = [])"
    unfolding set_collect_valid_dates by auto
  finally show ?thesis .
qed

section \<open>Builtin minimum and maximum\<close>

lemma ts_lt_same_tz: "ts_lt (Timestamp a z) (Timestamp b z) = Inr (a < b)"
  by (cases z) simp_all

lemma py_min_loop_mem: "py_min_loop m xs = Inr r \<Longrightarrow> r \<in> set (m # xs)"
proof (induction xs arbitrary: m)
  case Nil
  then show ?case by simp
next
  case (Cons x xs)
  from Cons.prems obtain b where b: "ts_lt x m = Inr b"
    and r: "py_min_loop (if b then x else m) xs = Inr r"
    by (auto split: sum.splits)
  from Cons.IH [OF r] show ?case by (auto split: if_splits)
qed

lemma py_max_loop_mem: "py_max_loop m xs = Inr r \<Longrightarrow> r \<in> set (m # xs)"
proof (induction xs arbitrary: m)
  case Nil
  then show ?case by simp
next
  case (Cons x xs)
  from Cons.prems obtain b where b: "ts_gt x m = Inr b"
    and r: "py_max_loop (if b then x else m) xs = Inr r"
    by (auto split: sum.splits)
  from Cons.IH [OF r] show ?case by (auto split: if_splits)
qed

lemma py_min_loop_NaT: "py_min_loop NaT xs = Inr NaT"
proof (induction xs)
  case Nil
  show ?case by simp
next
  case (Cons x xs)
  have "ts_lt x NaT = Inr False" by (cases x) simp_all
  with Cons show ?case by simp
qed

lemma py_max_loop_NaT: "py_max_loop NaT xs = Inr NaT"
  by (induction xs) (simp_all add: ts_gt_def)

lemma one_tz_Cons: "one_tz z (x # xs) \<longleftrightarrow> (x = NaT \<or> (\<exists>v. x = Timestamp v z)) \<and> one_tz z xs"
  by (simp add: one_tz_def)

lemma ts_lt_one_tz:
  assumes "x = NaT \<or> (\<exists>v. x = Timestamp v z)" and "m = NaT \<or> (\<exists>v. m = Timestamp v z)"
  shows "\<exists>b. ts_lt x m = Inr b"
  using assms by (cases x; cases m) (auto simp: ts_lt_same_tz)

lemma py_min_loop_one_tz_total:
  "one_tz z (m # xs) \<Longrightarrow> \<exists>r. py_min_loop m xs = Inr r"
proof (induction xs arbitrary: m)
  case Nil
  show ?case by simp
next
  case (Cons x xs)
  from Cons.prems have x: "x = NaT \<or> (\<exists>v. x = Timestamp v z)"
    and m: "m = NaT \<or> (\<exists>v. m = Timestamp v z)" and xs: "one_tz z xs"
    by (simp_all add: one_tz_Cons)
  from ts_lt_one_tz [OF x m] obtain b where b: "ts_lt x m = Inr b" by blast
  have "one_tz z ((if b then x else m) # xs)" using x m xs by (simp add: one_tz_Cons)
  from Cons.IH [OF this] b show ?case by simp
qed

lemma py_max_loop_one_tz_total:
  "one_tz z (m # xs) \<Longrightarrow> \<exists>r. py_max_loop m xs = Inr r"
proof (induction xs arbitrary: m)
  case Nil
  show ?case by simp
next
  case (Cons x xs)
  from Cons.prems have x: "x = NaT \<or> (\<exists>v. x = Timestamp v z)"
    and m: "m = NaT \<or> (\<exists>v. m = Timestamp v z)" and xs: "one_tz z xs"
    by (simp_all add: one_tz_Cons)
  from ts_lt_one_tz [OF m x] obtain b where b: "ts_gt x m = Inr b"
    unfolding ts_gt_def by blast
  have "one_tz z ((if b then x else m) # xs)" using x m xs by (simp add: one_tz_Cons)
  from Cons.IH [OF this] b show ?case by simp
qed

lemma py_min_loop_lower:
  "one_tz z (m # xs) \<Longrightarrow> py_min_loop m xs = Inr (Timestamp a z') \<Longrightarrow>
   Timestamp v z \<in> set (m # xs) \<Longrightarrow> a \<le> v"
proof (induction xs arbitrary: m v)
  case Nil
  then show ?case by simp
next
  case (Cons x xs)
  from Cons.prems(1) have x: "x = NaT \<or> (\<exists>v. x = Timestamp v z)"
    and m: "m = NaT \<or> (\<exists>v. m = Timestamp v z)" and xs: "one_tz z xs"
    by (simp_all add: one_tz_Cons)
  from Cons.prems(2) py_min_loop_NaT [of "x # xs"] have "m \<noteq> NaT" by auto
  with m obtain mv where mv: "m = Timestamp mv z" by blast
  from ts_lt_one_tz [OF x m] obtain b where b: "ts_lt x m = Inr b" by blast
  let ?m' = "if b then x else m"
  have one: "one_tz z (?m' # xs)" using x m xs by (simp add: one_tz_Cons)
  have res: "py_min_loop ?m' xs = Inr (Timestamp a z')" using Cons.prems(2) b by simp
  note IH = Cons.IH [OF one res]
  from x show ?case
  proof
    assume xN: "x = NaT"
    then have "?m' = m" using b mv by simp
    with IH Cons.prems(3) xN show ?thesis by auto
  next
    assume "\<exists>v. x = Timestamp v z"
    then obtain xv where xv: "x = Timestamp xv z" by blast
    with b mv have bv: "b = (xv < mv)" by (simp add: ts_lt_same_tz)
    show ?thesis
    proof (cases b)
      case True
      then have "a \<le> xv" using IH [of xv] xv by simp
      moreover have "a \<le> mv" using \<open>a \<le> xv\<close> True bv by simp
      moreover have "Timestamp v z \<in> set xs \<Longrightarrow> a \<le> v" using IH [of v] by simp
      ultimately show ?thesis using Cons.prems(3) xv mv by auto
    next
      case False
      then have "a \<le> mv" using IH [of mv] mv by simp
      moreover have "a \<le> xv" using \<open>a \<le> mv\<close> False bv by simp
      moreover have "Timestamp v z \<in> set xs \<Longrightarrow> a \<le> v" using IH [of v] by simp
      ultimately show ?thesis using Cons.prems(3) xv mv by auto
    qed
  qed
qed

lemma py_max_loop_upper:
  "one_tz z (m # xs) \<Longrightarrow> py_max_loop m xs = Inr (Timestamp a z') \<Longrightarrow>
   Timestamp v z \<in> set (m # xs) \<Longrightarrow> v \<le> a"
proof (induction xs arbitrary: m v)
  case Nil
  then show ?case by simp
next
  case (Cons x xs)
  from Cons.prems(1) have x: "x = NaT \<or> (\<exists>v. x = Timestamp v z)"
    and m: "m = NaT \<or> (\<exists>v. m = Timestamp v z)" and xs: "one_tz z xs"
    by (simp_all add: one_tz_Cons)
  from Cons.prems(2) py_max_loop_NaT [of "x # xs"] have "m \<noteq> NaT" by auto
  with m obtain mv where mv: "m = Timestamp mv z" by blast
  from ts_lt_one_tz [OF m x] obtain b where b: "ts_gt x m = Inr b"
    unfolding ts_gt_def by blast
  let ?m' = "if b then x else m"
  have one: "one_tz z (?m' # xs)" using x m xs by (simp add: one_tz_Cons)
  have res: "py_max_loop ?m' xs = Inr (Timestamp a z')" using Cons.prems(2) b by simp
  note IH = Cons.IH [OF one res]
  from x show ?case
  proof
    assume xN: "x = NaT"
    then have "?m' = m" using b mv by (simp add: ts_gt_def)
    with IH Cons.prems(3) xN show ?thesis by auto
  next
    assume "\<exists>v. x = Timestamp v z"
    then obtain xv where xv: "x = Timestamp xv z" by blast
    with b mv have bv: "b = (mv < xv)" by (simp add: ts_gt_def ts_lt_same_tz)
    show ?thesis
    proof (cases b)
      case True
      then have "xv \<le> a" using IH [of xv] xv by simp
      moreover have "mv \<le> a" using \<open>xv \<le> a\<close> True bv by simp
      moreover have "Timestamp v z \<in> set xs \<Longrightarrow> v \<le> a" using IH [of v] by simp
      ultimately show ?thesis using Cons.prems(3) xv mv by auto
    next
      case False
      then have "mv \<le> a" using IH [of mv] mv by simp
      moreover have "xv \<le> a" using \<open>mv \<le> a\<close> False bv by simp
      moreover have "Timestamp v z \<in> set xs \<Longrightarrow> v \<le> a" using IH [of v] by simp
      ultimately show ?thesis using Cons.prems(3) xv mv by auto
    qed
  qed
qed

lemma py_min_loop_valid: "m \<noteq> NaT \<Longrightarrow> py_min_loop m xs = Inr r \<Longrightarrow> r \<noteq> NaT"
proof (induction xs arbitrary: m)
  case Nil
  then show ?case by simp
next
  case (Cons x xs)
  from Cons.prems(2) obtain b where b: "ts_lt x m = Inr b"
    and r: "py_min_loop (if b then x else m) xs = Inr r"
    by (auto split: sum.splits)
  have "b \<Longrightarrow> x \<noteq> NaT" using b by auto
  then have "(if b then x else m) \<noteq> NaT" using Cons.prems(1) by simp
  from Cons.IH [OF this r] show ?case .
qed

lemma py_max_loop_valid: "m \<noteq> NaT \<Longrightarrow> py_max_loop m xs = Inr r \<Longrightarrow> r \<noteq> NaT"
proof (induction xs arbitrary: m)
  case Nil
  then show ?case by simp
next
  case (Cons x xs)
  from Cons.prems(2) obtain b where b: "ts_gt x m = Inr b"
    and r: "py_max_loop (if b then x else m) xs = Inr r"
    by (auto split: sum.splits)
  have "b \<Longrightarrow> x \<noteq> NaT" using b Cons.prems(1) by (cases m) (auto simp: ts_gt_def)
  then have "(if b then x else m) \<noteq> NaT" using Cons.prems(1) by simp
  from Cons.IH [OF this r] show ?case .
qed

section \<open>The computed bounds\<close>

lemma py_min_mem: "py_min xs = Inr r \<Longrightarrow> r \<in> set xs"
  by (cases xs) (auto dest: py_min_loop_mem)

lemma py_max_mem: "py_max xs = Inr r \<Longrightarrow> r \<in> set xs"
  by (cases xs) (auto dest: py_max_loop_mem)

lemma collect_valid_dates_entry:
  assumes "x \<in> set (collect_valid_dates dfs [])"
  shows "\<exists>d. Some d \<in> set dfs \<and> rows d \<noteq> [] \<and> (x = series_min d \<or> x = series_max d)"
  using assms unfolding set_collect_valid_dates by auto

lemma collect_valid_dates_row:
  assumes "Timestamp a z \<in> set (collect_valid_dates dfs [])"
  shows "\<exists>d r. Some d \<in> set dfs \<and> r \<in> set (rows d) \<and> z = tz d \<and> timestamp r = Some a"
proof -
  from collect_valid_dates_entry [OF assms] obtain d where d: "Some d \<in> set dfs"
    and c: "Timestamp a z = series_min d \<or> Timestamp a z = series_max d" by blast
  from c have "z = tz d \<and> (\<exists>r \<in> set (rows d). timestamp r = Some a)"
  proof
    assume "Timestamp a z = series_min d"
    then have s: "series_min d = Timestamp a z" by simp
    from series_min_Timestamp(1,2) [OF s] show ?thesis by simp
  next
    assume "Timestamp a z = series_max d"
    then have s: "series_max d = Timestamp a z" by simp
    from series_max_Timestamp(1,2) [OF s] show ?thesis by simp
  qed
  with d show ?thesis by blast
qed

lemma collect_valid_dates_one_tz:
  assumes "\<And>d. Some d \<in> set dfs \<Longrightarrow> tz d = z"
  shows "one_tz z (collect_valid_dates dfs [])"
  unfolding one_tz_def
proof
  fix x assume x: "x \<in> set (collect_valid_dates dfs [])"
  show "x = NaT \<or> (\<exists>v. x = Timestamp v z)"
  proof (cases x)
    case NaT
    then show ?thesis by simp
  next
    case (Timestamp a za)
    with collect_valid_dates_row [of a za dfs] x assms show ?thesis by auto
  qed
qed

lemma bounds_dates_D:
  assumes "get_available_date_range dfs = Inr (Some (Date lo), Some (Date hi))"
  shows "\<exists>a za b zb.
           py_min (collect_valid_dates dfs []) = Inr (Timestamp a za) \<and>
           py_max (collect_valid_dates dfs []) = Inr (Timestamp b zb) \<and>
           lo = wall_clock za a div ns_per_day \<and> hi = wall_clock zb b div ns_per_day"
proof -
  let ?vd = "collect_valid_dates dfs []"
  from assms have ne: "?vd \<noteq> []"
    by (auto simp: get_available_date_range_def Let_def split: if_splits)
  with assms obtain x y where x: "py_min ?vd = Inr x" and y: "py_max ?vd = Inr y"
    and dx: "date_of x = Date lo" and dy: "date_of y = Date hi"
    by (auto simp: get_available_date_range_def Let_def split: sum.splits)
  from dx obtain a za where "x = Timestamp a za" "lo = wall_clock za a div ns_per_day"
    by (cases x) auto
  moreover from dy obtain b zb where "y = Timestamp b zb" "hi = wall_clock zb b div ns_per_day"
    by (cases y) auto
  ultimately show ?thesis using x y by blast
qed

lemma bounds_attained:
  assumes "get_available_date_range dfs = Inr (Some (Date lo), Some (Date hi))"
  shows "(\<exists>d r. Some d \<in> set dfs \<and> r \<in> set (rows d) \<and> date_of (cell d r) = Date lo) \<and>
         (\<exists>d r. Some d \<in> set dfs \<and> r \<in> set (rows d) \<and> date_of (cell d r) = Date hi)"
proof -
  let ?vd = "collect_valid_dates dfs []"
  from bounds_dates_D [OF assms] obtain a za b zb where
    mn: "py_min ?vd = Inr (Timestamp a za)" and mx: "py_max ?vd = Inr (Timestamp b zb)"
    and lo: "lo = wall_clock za a div ns_per_day" and hi: "hi = wall_clock zb b div ns_per_day"
    by blast
  from collect_valid_dates_row [OF py_min_mem [OF mn]] obtain d r where
    d: "Some d \<in> set dfs" "r \<in> set (rows d)" "za = tz d" "timestamp r = Some a" by blast
  then have 1: "date_of (cell d r) = Date lo" by (simp add: cell_Some lo)
  from collect_valid_dates_row [OF py_max_mem [OF mx]] obtain e s where
    e: "Some e \<in> set dfs" "s \<in> set (rows e)" "zb = tz e" "timestamp s = Some b" by blast
  then have 2: "date_of (cell e s) = Date hi" by (simp add: cell_Some hi)
  from d 1 e 2 show ?thesis by blast
qed

lemma bounds_enclose_rows:
  assumes b: "get_available_date_range dfs = Inr (Some (Date lo), Some (Date hi))"
    and z: "\<And>d. Some d \<in> set dfs \<Longrightarrow> tz d = z"
    and d: "Some d \<in> set dfs" and r: "r \<in> set (rows d)" and v: "timestamp r = Some v"
  shows "lo \<le> wall_clock z v div ns_per_day \<and> wall_clock z v div ns_per_day \<le> hi"
proof -
  let ?vd = "collect_valid_dates dfs []"
  from bounds_dates_D [OF b] obtain a za c zc where
    mn: "py_min ?vd = Inr (Timestamp a za)" and mx: "py_max ?vd = Inr (Timestamp c zc)"
    and lo: "lo = wall_clock za a div ns_per_day" and hi: "hi = wall_clock zc c div ns_per_day"
    by blast
  have one: "one_tz z ?vd" using z by (rule collect_valid_dates_one_tz)
  from one py_min_mem [OF mn] have za: "za = z" by (auto simp: one_tz_def)
  from one py_max_mem [OF mx] have zc: "zc = z" by (auto simp: one_tz_def)
  from r have ne: "rows d \<noteq> []" by auto
  from series_min_valid [OF r v] obtain m where m: "series_min d = Timestamp m (tz d)" "m \<le> v"
    by blast
  from series_max_valid [OF r v] obtain n where n: "series_max d = Timestamp n (tz d)" "v \<le> n"
    by blast
  have "series_min d \<in> set ?vd" "series_max d \<in> set ?vd"
    unfolding set_collect_valid_dates using d ne by auto
  then have mem: "Timestamp m z \<in> set ?vd" "Timestamp n z \<in> set ?vd"
    using m n z [OF d] by simp_all
  obtain x xs where vd: "?vd = x # xs" using mem by (cases ?vd) auto
  have "a \<le> m"
    using py_min_loop_lower [of z x xs a za m] one mn mem(1) unfolding vd by simp
  moreover have "n \<le> c"
    using py_max_loop_upper [of z x xs c zc n] one mx mem(2) unfolding vd by simp
  ultimately have "a \<le> v" "v \<le> c" using m n by simp_all
  then show ?thesis unfolding lo hi za zc by (simp add: day_mono)
qed

lemma bounds_exist:
  assumes ne: "dfs \<noteq> []"
    and all: "\<forall>df \<in> set dfs. \<exists>d. df = Some d \<and> tz d = z \<and> (\<exists>r \<in> set (rows d). timestamp r \<noteq> None)"
  shows "\<exists>lo hi. get_available_date_range dfs = Inr (Some (Date lo), Some (Date hi))"
proof -
  let ?vd = "collect_valid_dates dfs []"
  have z: "tz d = z" if "Some d \<in> set dfs" for d using all that by force
  have valid: "\<exists>r \<in> set (rows d). timestamp r \<noteq> None" if "Some d \<in> set dfs" for d
    using all that by force
  have one: "one_tz z ?vd" using z by (rule collect_valid_dates_one_tz)
  have noNaT: "x \<noteq> NaT" if "x \<in> set ?vd" for x
  proof -
    from collect_valid_dates_entry [OF that] obtain d where d: "Some d \<in> set dfs"
      and c: "x = series_min d \<or> x = series_max d" by blast
    from valid [OF d] have "series_min d \<noteq> NaT" "series_max d \<noteq> NaT"
      by (auto simp: series_min_NaT_iff series_max_NaT_iff)
    with c show ?thesis by auto
  qed
  from ne obtain df where "df \<in> set dfs" by (cases dfs) auto
  with all obtain d where "Some d \<in> set dfs" "rows d \<noteq> []" by force
  then have "?vd \<noteq> []" by (auto simp: collect_valid_dates_empty_iff)
  then obtain x xs where vd: "?vd = x # xs" by (cases ?vd) auto
  have x: "x \<noteq> NaT" using noNaT [of x] vd by simp
  from py_min_loop_one_tz_total [of z x xs] one obtain p where p: "py_min_loop x xs = Inr p"
    unfolding vd by blast
  from py_max_loop_one_tz_total [of z x xs] one obtain q where q: "py_max_loop x xs = Inr q"
    unfolding vd by blast
  from py_min_loop_valid [OF x p] obtain a za where a: "p = Timestamp a za" by (cases p) auto
  from py_max_loop_valid [OF x q] obtain b zb where b: "q = Timestamp b zb" by (cases q) auto
  have "get_available_date_range dfs =
          Inr (Some (Date (wall_clock za a div ns_per_day)), Some (Date (wall_clock zb b div ns_per_day)))"
    using p q a b by (simp add: get_available_date_range_def vd)
  then show ?thesis by blast
qed

section \<open>The mask of the date filter\<close>

lemma boolean_index_filter: "boolean_index rs (map P rs) = filter P rs"
  by (induction rs) (simp_all add: boolean_index_def)

lemma in_window_iff:
  "series_ge x s \<and> series_le x e \<longleftrightarrow> (\<exists>d. x = Date d \<and> s \<le> d \<and> d \<le> e)"
  by (cases x) auto

lemma filter_dates_Some:
  "filter_dates (Some df) s e =
     Some (df\<lparr>rows := filter (\<lambda>r. \<exists>d. date_of (cell df r) = Date d \<and> s \<le> d \<and> d \<le> e)
                         (rows df)\<rparr>)"
proof -
  have "map2 (\<and>) (map (\<lambda>x. series_ge x s) (map (\<lambda>r. date_of (cell df r)) rs))
                  (map (\<lambda>x. series_le x e) (map (\<lambda>r. date_of (cell df r)) rs))
        = map (\<lambda>r. \<exists>d. date_of (cell df r) = Date d \<and> s \<le> d \<and> d \<le> e) rs" for rs
    by (induction rs) (simp_all add: in_window_iff)
  then show ?thesis
    by (simp add: filter_dates_def dt_date_def Let_def boolean_index_filter)
qed

section \<open>The range validator\<close>

text \<open>
  The validator answers with a truth value and with the message it shows. The four
  outcomes of the specification are told apart by both: \<open>(True, [])\<close> is Ok,
  \<open>(False, [])\<close> is NoData, \<open>False\<close> with \<open>St_error\<close> is InvertedRange and
  \<open>False\<close> with the markdown box of the available range is OutsideBounds.
\<close>

text \<open>
  Claim C1. For a window with \<open>start \<le> end\<close> and both bounds present, the validator
  answers OutsideBounds exactly when the window lies wholly before the lower bound or
  wholly after the upper bound, and Ok for every other window, also one that reaches
  beyond the bounds on either side.
\<close>

theorem validate_overlap_test:
  assumes "start_date \<le> end_date"
  shows "validate_date_range start_date end_date (Some (Date min_date)) (Some (Date max_date)) =
           (if end_date < min_date \<or> start_date > max_date
            then Inr (False,
                   [St_markdown_date_range_error (Date min_date) (Some (Date max_date))])
            else Inr (True, []))"
  using assms by (simp add: py_or_def)

theorem validate_overlap_test_witness:
  "(19713::int) \<le> 19730 \<and>
   validate_date_range 19713 19730 (Some (Date 19723)) (Some (Date 19753)) = Inr (True, []) \<and>
   (19754::int) \<le> 19758 \<and>
   validate_date_range 19754 19758 (Some (Date 19723)) (Some (Date 19753)) =
     Inr (False, [St_markdown_date_range_error (Date 19723) (Some (Date 19753))])"
  using validate_overlap_test
      [where start_date = 19713 and end_date = 19730 and min_date = 19723 and max_date = 19753]
    validate_overlap_test
      [where start_date = 19754 and end_date = 19758 and min_date = 19723 and max_date = 19753]
  by simp

text \<open>
  Claim C2, as stated, at a concrete input: with the bounds absent, the inverted window
  from 2024-01-20 back to 2024-01-10 is answered with NoData and no message, not with
  InvertedRange. The test for absent bounds is the first statement of the function.
\<close>

theorem validate_inverted_absent_bounds_counterexample:
  "validate_date_range 19742 19732 None None = Inr (False, []) \<and>
   validate_date_range 19742 19732 None None \<noteq>
     Inr (False, [St_error ''Start date cannot be after End date.''])"
  by simp

text \<open>
  Claim C2, amended. For a window with \<open>start > end\<close> and a present lower bound, the
  validator answers InvertedRange whatever the values of the bounds are, so
  InvertedRange wins over OutsideBounds; with an absent lower bound it answers NoData.
\<close>

theorem validate_inverted_first:
  assumes "start_date > end_date"
  shows "validate_date_range start_date end_date (Some min_date) max_date =
           Inr (False, [St_error ''Start date cannot be after End date.'']) \<and>
         validate_date_range start_date end_date None max_date = Inr (False, [])"
  using assms by simp

theorem validate_inverted_first_witness:
  "(19742::int) > 19732 \<and>
   validate_date_range 19742 19732 (Some (Date 19753)) (Some (Date 19783)) =
     Inr (False, [St_error ''Start date cannot be after End date.'']) \<and>
   validate_date_range 19742 19732 None (Some (Date 19783)) = Inr (False, [])"
  using validate_inverted_first
      [where start_date = 19742 and end_date = 19732 and min_date = "Date 19753"
         and max_date = "Some (Date 19783)"]
  by simp

section \<open>The range computer\<close>

text \<open>
  Claim C3, as stated, at three concrete collections of present, non-empty frames.
  A frame whose only timestamp cell is blank gives the bounds \<^verbatim>\<open>(NaT, NaT)\<close>, which are
  no dates. A naive frame together with an aware one raises \<^verbatim>\<open>TypeError\<close> in the
  builtin \<^verbatim>\<open>min\<close>. A frame at UTC+09:00 with the timestamp 2024-01-02 05:00 (20:00 UTC
  the day before) and a frame at UTC-08:00 with the timestamp 2024-01-01 13:00 (21:00
  UTC) give the lower bound 2024-01-02 and the upper bound 2024-01-01: the lower bound
  is after the date of the second frame's earliest timestamp.
\<close>

theorem bounds_missing_or_mixed_timezone_counterexample:
  "get_available_date_range
     [Some \<lparr>tz = None, rows = [\<lparr>timestamp = None, cols = 1::int\<rparr>]\<rparr>] =
     Inr (Some NaT_date, Some NaT_date) \<and>
   get_available_date_range
     [Some \<lparr>tz = None, rows = [\<lparr>timestamp = Some 1704067200000000000, cols = 1::int\<rparr>]\<rparr>,
      Some \<lparr>tz = Some 0, rows = [\<lparr>timestamp = Some 1704067200000000000, cols = 2\<rparr>]\<rparr>] =
     Inl TypeError \<and>
   get_available_date_range
     [Some \<lparr>tz = Some 32400000000000,
            rows = [\<lparr>timestamp = Some 1704139200000000000, cols = 1::int\<rparr>]\<rparr>,
      Some \<lparr>tz = Some (- 28800000000000),
            rows = [\<lparr>timestamp = Some 1704142800000000000, cols = 2\<rparr>]\<rparr>] =
     Inr (Some (Date 19724), Some (Date 19723)) \<and>
   date_of (series_min \<lparr>tz = Some (- 28800000000000),
                        rows = [\<lparr>timestamp = Some 1704142800000000000, cols = 2::int\<rparr>]\<rparr>) =
     Date 19723"
  by (simp add: get_available_date_range_def series_min_def series_max_def ts_gt_def
      wall_clock_def ns_per_day_def)

text \<open>
  Claim C3, amended. For a non-empty collection of present frames that all have the same
  timezone setting (all naive, or all at one UTC offset) and that each have at least one
  timestamp that is not missing, \<^verbatim>\<open>get_available_date_range\<close> returns two calendar
  dates \<open>lo\<close> and \<open>hi\<close>. For every frame, with its earliest and latest timestamp taken
  over the cells that are not missing: \<open>lo\<close> is at most the date of the earliest
  timestamp and \<open>hi\<close> is at least the date of the latest one; as instants of wall-clock
  time, the midnight that starts \<open>lo\<close> is at most the earliest timestamp and the latest
  timestamp lies before the midnight that ends \<open>hi\<close>. Both bounds are the dates of
  timestamps that occur in the collection, the time of day discarded.
\<close>

theorem bounds_enclose_every_dataset:
  assumes "dfs \<noteq> []"
    and "\<forall>df \<in> set dfs. \<exists>d. df = Some d \<and> tz d = z \<and> (\<exists>r \<in> set (rows d). timestamp r \<noteq> None)"
  shows "\<exists>lo hi. get_available_date_range dfs = Inr (Some (Date lo), Some (Date hi)) \<and>
           (\<forall>d. Some d \<in> set dfs \<longrightarrow>
              (\<exists>tmin tmax dmin dmax.
                 series_min d = Timestamp tmin z \<and> series_max d = Timestamp tmax z \<and>
                 (\<forall>r \<in> set (rows d). \<forall>v. timestamp r = Some v \<longrightarrow> tmin \<le> v \<and> v \<le> tmax) \<and>
                 date_of (series_min d) = Date dmin \<and> date_of (series_max d) = Date dmax \<and>
                 lo \<le> dmin \<and> dmax \<le> hi \<and>
                 lo * ns_per_day \<le> wall_clock z tmin \<and>
                 wall_clock z tmax < (hi + 1) * ns_per_day)) \<and>
           (\<exists>d r. Some d \<in> set dfs \<and> r \<in> set (rows d) \<and> date_of (cell d r) = Date lo) \<and>
           (\<exists>d r. Some d \<in> set dfs \<and> r \<in> set (rows d) \<and> date_of (cell d r) = Date hi)"
proof -
  from bounds_exist [OF assms] obtain lo hi where
    b: "get_available_date_range dfs = Inr (Some (Date lo), Some (Date hi))" by blast
  have z: "tz d = z" if "Some d \<in> set dfs" for d using assms(2) that by force
  have "\<exists>tmin tmax dmin dmax.
          series_min d = Timestamp tmin z \<and> series_max d = Timestamp tmax z \<and>
          (\<forall>r \<in> set (rows d). \<forall>v. timestamp r = Some v \<longrightarrow> tmin \<le> v \<and> v \<le> tmax) \<and>
          date_of (series_min d) = Date dmin \<and> date_of (series_max d) = Date dmax \<and>
          lo \<le> dmin \<and> dmax \<le> hi \<and>
          lo * ns_per_day \<le> wall_clock z tmin \<and>
          wall_clock z tmax < (hi + 1) * ns_per_day"
    if d: "Some d \<in> set dfs" for d
  proof -
    from assms(2) d obtain r v where r: "r \<in> set (rows d)" "timestamp r = Some v" by force
    from series_min_valid [OF r] obtain tmin where
      smin: "series_min d = Timestamp tmin (tz d)" by blast
    from series_max_valid [OF r] obtain tmax where
      smax: "series_max d = Timestamp tmax (tz d)" by blast
    from series_min_Timestamp(2) [OF smin] obtain rmin where
      rmin: "rmin \<in> set (rows d)" "timestamp rmin = Some tmin" by blast
    from series_max_Timestamp(2) [OF smax] obtain rmax where
      rmax: "rmax \<in> set (rows d)" "timestamp rmax = Some tmax" by blast
    have between: "\<forall>r \<in> set (rows d). \<forall>v. timestamp r = Some v \<longrightarrow> tmin \<le> v \<and> v \<le> tmax"
      using series_min_Timestamp(3) [OF smin] series_max_Timestamp(3) [OF smax] by blast
    let ?dmin = "wall_clock z tmin div ns_per_day"
    let ?dmax = "wall_clock z tmax div ns_per_day"
    have lo: "lo \<le> ?dmin" using bounds_enclose_rows [OF b z d rmin] by simp
    have hi: "?dmax \<le> hi" using bounds_enclose_rows [OF b z d rmax] by simp
    have "lo * ns_per_day \<le> ?dmin * ns_per_day" using lo ns_per_day_pos by simp
    also have "\<dots> \<le> wall_clock z tmin" using day_floor [of "wall_clock z tmin"] by simp
    finally have 1: "lo * ns_per_day \<le> wall_clock z tmin" .
    have "wall_clock z tmax < (?dmax + 1) * ns_per_day"
      using day_floor [of "wall_clock z tmax"] by simp
    also have "\<dots> \<le> (hi + 1) * ns_per_day" using hi ns_per_day_pos by simp
    finally have 2: "wall_clock z tmax < (hi + 1) * ns_per_day" .
    have "series_min d = Timestamp tmin z" "series_max d = Timestamp tmax z"
      using smin smax z [OF d] by simp_all
    moreover from this have "date_of (series_min d) = Date ?dmin"
      "date_of (series_max d) = Date ?dmax" by simp_all
    ultimately show ?thesis using between lo hi 1 2 by blast
  qed
  with b bounds_attained [OF b] show ?thesis by blast
qed

theorem bounds_enclose_every_dataset_witness:
  "\<exists>lo hi.
     get_available_date_range
       [Some \<lparr>tz = None,
              rows = [\<lparr>timestamp = Some 1704877200000000000, cols = 1::int\<rparr>,
                      \<lparr>timestamp = None, cols = 2\<rparr>,
                      \<lparr>timestamp = Some 1704067200000000000, cols = 3\<rparr>]\<rparr>,
        Some \<lparr>tz = None,
              rows = [\<lparr>timestamp = Some 1706713200000000000, cols = 4\<rparr>]\<rparr>] =
       Inr (Some (Date lo), Some (Date hi)) \<and>
     (\<exists>dmin dmax.
        date_of (series_min \<lparr>tz = None,
                   rows = [\<lparr>timestamp = Some 1706713200000000000, cols = 4::int\<rparr>]\<rparr>) =
          Date dmin \<and>
        date_of (series_max \<lparr>tz = None,
                   rows = [\<lparr>timestamp = Some 1706713200000000000, cols = 4::int\<rparr>]\<rparr>) =
          Date dmax \<and>
        lo \<le> dmin \<and> dmax \<le> hi)"
proof -
  let ?d2 = "\<lparr>tz = None, rows = [\<lparr>timestamp = Some 1706713200000000000, cols = 4::int\<rparr>]\<rparr>"
  let ?dfs = "[Some \<lparr>tz = None,
                     rows = [\<lparr>timestamp = Some 1704877200000000000, cols = 1::int\<rparr>,
                             \<lparr>timestamp = None, cols = 2\<rparr>,
                             \<lparr>timestamp = Some 1704067200000000000, cols = 3\<rparr>]\<rparr>,
               Some ?d2]"
  have h1: "?dfs \<noteq> []" by simp
  have h2: "\<forall>df \<in> set ?dfs.
              \<exists>d. df = Some d \<and> tz d = None \<and> (\<exists>r \<in> set (rows d). timestamp r \<noteq> None)"
    by simp
  have h3: "Some ?d2 \<in> set ?dfs" by simp
  from bounds_enclose_every_dataset [OF h1 h2] h3 show ?thesis by blast
qed

text \<open>
  Claim C6. When the collection is empty, or every frame in it is absent or empty,
  \<^verbatim>\<open>get_available_date_range\<close> returns the pair of two \<^verbatim>\<open>None\<close> and raises nothing,
  and the script shows "No valid data found." and stops, whatever dates are picked.
\<close>

theorem no_data_no_bounds_and_stop:
  assumes "\<forall>df \<in> set dfs. df = None \<or> (\<exists>d. df = Some d \<and> rows d = [])"
  shows "get_available_date_range dfs = Inr (None, None) \<and>
         script_run dfs start_date end_date = Inr (Stopped [St_error ''No valid data found.''])"
proof -
  from assms have "\<forall>d. Some d \<in> set dfs \<longrightarrow> rows d = []" by force
  then have "collect_valid_dates dfs [] = []"
    by (simp add: collect_valid_dates_empty_iff)
  then have "get_available_date_range dfs = Inr (None, None)"
    by (simp add: get_available_date_range_def)
  then show ?thesis by (simp add: script_run_def)
qed

theorem no_data_no_bounds_and_stop_witness:
  "get_available_date_range ([] :: int dataframe option list) = Inr (None, None) \<and>
   script_run ([] :: int dataframe option list) 19723 19753 =
     Inr (Stopped [St_error ''No valid data found.'']) \<and>
   get_available_date_range [None, None :: int dataframe option] = Inr (None, None) \<and>
   get_available_date_range [None, Some (\<lparr>tz = None, rows = []\<rparr> :: int dataframe)] =
     Inr (None, None) \<and>
   script_run [None, Some (\<lparr>tz = None, rows = []\<rparr> :: int dataframe)] 19723 19753 =
     Inr (Stopped [St_error ''No valid data found.''])"
  using no_data_no_bounds_and_stop
      [where dfs = "[] :: int dataframe option list" and start_date = 19723
         and end_date = 19753]
    no_data_no_bounds_and_stop
      [where dfs = "[None, None :: int dataframe option]" and start_date = 19723
         and end_date = 19753]
    no_data_no_bounds_and_stop
      [where dfs = "[None, Some (\<lparr>tz = None, rows = []\<rparr> :: int dataframe)]"
         and start_date = 19723 and end_date = 19753]
  by simp

section \<open>The date filter\<close>

text \<open>
  Claim C5. On a present frame, \<^verbatim>\<open>filter_dates\<close> returns exactly the rows whose
  timestamp has a calendar date \<open>d\<close> with \<open>start \<le> d \<le> end\<close>, both ends included,
  in the order they have in the frame. A row with a missing timestamp has no calendar
  date and is not returned.
\<close>

theorem filter_dates_inclusive_in_order:
  "filter_dates (Some df) start_date end_date =
     Some (df\<lparr>rows :=
       filter (\<lambda>r. \<exists>d. date_of (cell df r) = Date d \<and> start_date \<le> d \<and> d \<le> end_date)
         (rows df)\<rparr>)"
  by (rule filter_dates_Some)

text \<open>
  Claim C7. On an absent frame, \<^verbatim>\<open>filter_dates\<close> returns the absent frame, for every
  window.
\<close>

theorem filter_dates_absent:
  "filter_dates None start_date end_date = None"
  by (simp add: filter_dates_def)

text \<open>
  Claim C8. Filtering twice with the same window is filtering once, for a present and
  for an absent frame.
\<close>

theorem filter_dates_idempotent:
  "filter_dates (filter_dates df start_date end_date) start_date end_date =
     filter_dates df start_date end_date"
proof (cases df)
  case None
  then show ?thesis by (simp add: filter_dates_def)
next
  case (Some d)
  then show ?thesis by (simp add: filter_dates_Some cell_rows_update)
qed

text \<open>
  Claim C9. When the window \<open>(start2, end2)\<close> lies inside the window
  \<open>(start1, end1)\<close>, the rows of the frame filtered with the inner window are a
  subsequence of the rows of the frame filtered with the outer one, in a frame of the
  same timezone; for an absent frame both results are absent.
\<close>

theorem filter_dates_monotone:
  assumes "start1 \<le> start2" and "end2 \<le> end1"
  shows "rel_option (\<lambda>inner outer. tz inner = tz outer \<and> subseq (rows inner) (rows outer))
           (filter_dates df start2 end2) (filter_dates df start1 end1)"
proof (cases df)
  case None
  then show ?thesis by (simp add: filter_dates_def)
next
  case (Some d)
  let ?P1 = "\<lambda>r. \<exists>x. date_of (cell d r) = Date x \<and> start1 \<le> x \<and> x \<le> end1"
  let ?P2 = "\<lambda>r. \<exists>x. date_of (cell d r) = Date x \<and> start2 \<le> x \<and> x \<le> end2"
  have imp: "?P2 r \<Longrightarrow> ?P1 r" for r using assms by force
  have "filter ?P2 (filter ?P1 (rows d)) = filter (\<lambda>r. ?P1 r \<and> ?P2 r) (rows d)"
    by simp
  also have "\<dots> = filter ?P2 (rows d)"
  proof (rule filter_cong)
    show "rows d = rows d" by simp
    show "(?P1 r \<and> ?P2 r) = ?P2 r" for r using imp [of r] by blast
  qed
  finally have "filter ?P2 (filter ?P1 (rows d)) = filter ?P2 (rows d)" .
  moreover have "subseq (filter ?P2 (filter ?P1 (rows d))) (filter ?P1 (rows d))"
    by (rule subseq_filter_left)
  ultimately have "subseq (filter ?P2 (rows d)) (filter ?P1 (rows d))" by simp
  then show ?thesis using Some by (simp add: filter_dates_Some)
qed

theorem filter_dates_monotone_witness:
  "(19723::int) \<le> 19732 \<and> (19742::int) \<le> 19753 \<and>
   rel_option (\<lambda>inner outer. tz inner = tz outer \<and> subseq (rows inner) (rows outer))
     (filter_dates
        (Some \<lparr>tz = None,
               rows = [\<lparr>timestamp = Some 1704067200000000000, cols = 1::int\<rparr>,
                       \<lparr>timestamp = Some 1704877200000000000, cols = 2\<rparr>,
                       \<lparr>timestamp = Some 1706713200000000000, cols = 3\<rparr>]\<rparr>) 19732 19742)
     (filter_dates
        (Some \<lparr>tz = None,
               rows = [\<lparr>timestamp = Some 1704067200000000000, cols = 1::int\<rparr>,
                       \<lparr>timestamp = Some 1704877200000000000, cols = 2\<rparr>,
                       \<lparr>timestamp = Some 1706713200000000000, cols = 3\<rparr>]\<rparr>) 19723 19753)"
  using filter_dates_monotone
      [where ?start1.0 = 19723 and ?start2.0 = 19732 and ?end2.0 = 19742 and ?end1.0 = 19753
         and df = "Some \<lparr>tz = None,
                          rows = [\<lparr>timestamp = Some 1704067200000000000, cols = 1::int\<rparr>,
                                  \<lparr>timestamp = Some 1704877200000000000, cols = 2\<rparr>,
                                  \<lparr>timestamp = Some 1706713200000000000, cols = 3\<rparr>]\<rparr>"]
  by simp

section \<open>Bounds, validation and filter together\<close>

text \<open>
  Claim C4, as stated, at a concrete input: one naive frame with a row on 2024-01-01
  and a row on 2024-01-31 has the bounds 2024-01-01 and 2024-01-31; the window from
  2024-01-10 to 2024-01-20 is accepted by the validator, and the filtered frame is
  empty.
\<close>

theorem accepted_window_empty_filter_counterexample:
  "get_available_date_range
     [Some \<lparr>tz = None,
            rows = [\<lparr>timestamp = Some 1704067200000000000, cols = 1::int\<rparr>,
                    \<lparr>timestamp = Some 1706659200000000000, cols = 2\<rparr>]\<rparr>] =
     Inr (Some (Date 19723), Some (Date 19753)) \<and>
   validate_date_range 19732 19742 (Some (Date 19723)) (Some (Date 19753)) = Inr (True, []) \<and>
   filter_dates
     (Some \<lparr>tz = None,
            rows = [\<lparr>timestamp = Some 1704067200000000000, cols = 1::int\<rparr>,
                    \<lparr>timestamp = Some 1706659200000000000, cols = 2\<rparr>]\<rparr>) 19732 19742 =
     Some \<lparr>tz = None, rows = []\<rparr>"
  by (simp add: get_available_date_range_def series_min_def series_max_def ts_gt_def
      wall_clock_def ns_per_day_def py_or_def filter_dates_def dt_date_def cell_def
      boolean_index_def)

text \<open>
  Claim C4, amended. For a collection with present bounds and a window that the
  validator accepts and that reaches one of the bounds (it starts on or before the lower
  bound, or ends on or after the upper bound, as every accepted window does that
  extends beyond the data), at least one frame of the collection has a non-empty
  filtered result.
\<close>

theorem accepted_window_touching_bound_nonempty:
  assumes b: "get_available_date_range dfs = Inr (Some (Date lo), Some (Date hi))"
    and v: "validate_date_range start_date end_date (Some (Date lo)) (Some (Date hi)) =
              Inr (True, [])"
    and edge: "start_date \<le> lo \<or> hi \<le> end_date"
  shows "\<exists>d kept. Some d \<in> set dfs \<and>
           filter_dates (Some d) start_date end_date = Some kept \<and> rows kept \<noteq> []"
proof -
  from v have w: "start_date \<le> end_date" "lo \<le> end_date" "start_date \<le> hi"
    by (auto simp: py_or_def split: if_splits)
  from bounds_attained [OF b] obtain dx x dy y where
    x: "Some dx \<in> set dfs" "x \<in> set (rows dx)" "date_of (cell dx x) = Date lo" and
    y: "Some dy \<in> set dfs" "y \<in> set (rows dy)" "date_of (cell dy y) = Date hi"
    by blast
  let ?P = "\<lambda>d r. \<exists>k. date_of (cell d r) = Date k \<and> start_date \<le> k \<and> k \<le> end_date"
  from edge show ?thesis
  proof
    assume "start_date \<le> lo"
    with w x have "x \<in> set (filter (?P dx) (rows dx))" by simp
    then have "filter (?P dx) (rows dx) \<noteq> []" by force
    then have "rows (dx\<lparr>rows := filter (?P dx) (rows dx)\<rparr>) \<noteq> []" by simp
    with x(1) filter_dates_Some [of dx start_date end_date] show ?thesis by blast
  next
    assume "hi \<le> end_date"
    with w y have "y \<in> set (filter (?P dy) (rows dy))" by simp
    then have "filter (?P dy) (rows dy) \<noteq> []" by force
    then have "rows (dy\<lparr>rows := filter (?P dy) (rows dy)\<rparr>) \<noteq> []" by simp
    with y(1) filter_dates_Some [of dy start_date end_date] show ?thesis by blast
  qed
qed

theorem accepted_window_touching_bound_nonempty_witness:
  "\<exists>d kept.
     Some d \<in> set [Some \<lparr>tz = None,
                          rows = [\<lparr>timestamp = Some 1704067200000000000, cols = 1::int\<rparr>,
                                  \<lparr>timestamp = Some 1706659200000000000, cols = 2\<rparr>]\<rparr>,
                    None] \<and>
     filter_dates (Some d) 19713 19730 = Some kept \<and> rows kept \<noteq> []"
proof -
  let ?dfs = "[Some \<lparr>tz = None,
                     rows = [\<lparr>timestamp = Some 1704067200000000000, cols = 1::int\<rparr>,
                             \<lparr>timestamp = Some 1706659200000000000, cols = 2\<rparr>]\<rparr>,
               None]"
  have b: "get_available_date_range ?dfs = Inr (Some (Date 19723), Some (Date 19753))"
    by (simp add: get_available_date_range_def series_min_def series_max_def ts_gt_def
        wall_clock_def ns_per_day_def)
  have v: "validate_date_range 19713 19730 (Some (Date 19723)) (Some (Date 19753)) =
             Inr (True, [])"
    by (simp add: py_or_def)
  have edge: "(19713::int) \<le> 19723 \<or> (19753::int) \<le> 19730" by simp
  from accepted_window_touching_bound_nonempty [OF b v edge] show ?thesis .
qed

text \<open>
  Claim C10, as stated, at two concrete collections whose bounds are present. A naive
  frame with a row on 2024-01-01 and a row with a blank timestamp has both bounds on
  2024-01-01, and filtering it with them drops the second row. The frames at UTC+09:00
  and UTC-08:00 of claim C3 have the bounds 2024-01-02 and 2024-01-01, and filtering the
  first frame with them leaves no row.
\<close>

theorem filter_by_bounds_drops_rows_counterexample:
  "get_available_date_range
     [Some \<lparr>tz = None,
            rows = [\<lparr>timestamp = Some 1704067200000000000, cols = 1::int\<rparr>,
                    \<lparr>timestamp = None, cols = 2\<rparr>]\<rparr>] =
     Inr (Some (Date 19723), Some (Date 19723)) \<and>
   filter_dates
     (Some \<lparr>tz = None,
            rows = [\<lparr>timestamp = Some 1704067200000000000, cols = 1::int\<rparr>,
                    \<lparr>timestamp = None, cols = 2\<rparr>]\<rparr>) 19723 19723 =
     Some \<lparr>tz = None, rows = [\<lparr>timestamp = Some 1704067200000000000, cols = 1\<rparr>]\<rparr> \<and>
   get_available_date_range
     [Some \<lparr>tz = Some 32400000000000,
            rows = [\<lparr>timestamp = Some 1704139200000000000, cols = 1::int\<rparr>]\<rparr>,
      Some \<lparr>tz = Some (- 28800000000000),
            rows = [\<lparr>timestamp = Some 1704142800000000000, cols = 2\<rparr>]\<rparr>] =
     Inr (Some (Date 19724), Some (Date 19723)) \<and>
   filter_dates
     (Some \<lparr>tz = Some 32400000000000,
            rows = [\<lparr>timestamp = Some 1704139200000000000, cols = 1::int\<rparr>]\<rparr>) 19724 19723 =
     Some \<lparr>tz = Some 32400000000000, rows = []\<rparr>"
  by (simp add: get_available_date_range_def series_min_def series_max_def ts_gt_def
      wall_clock_def ns_per_day_def filter_dates_def dt_date_def cell_def boolean_index_def)

text \<open>
  Claim C10, amended. When the frames of a collection all have the same timezone setting
  and the computed bounds are calendar dates, filtering a present frame of the
  collection with the window from the lower to the upper bound returns exactly its rows
  whose timestamp is not missing, in their order; so a frame without missing timestamps
  is returned unchanged.
\<close>

theorem filter_by_bounds_identity:
  assumes b: "get_available_date_range dfs = Inr (Some (Date lo), Some (Date hi))"
    and z: "\<And>d. Some d \<in> set dfs \<Longrightarrow> tz d = z"
    and d: "Some d \<in> set dfs"
  shows "filter_dates (Some d) lo hi =
           Some (d\<lparr>rows := filter (\<lambda>r. timestamp r \<noteq> None) (rows d)\<rparr>) \<and>
         ((\<forall>r \<in> set (rows d). timestamp r \<noteq> None) \<longrightarrow> filter_dates (Some d) lo hi = Some d)"
proof -
  have "(\<exists>k. date_of (cell d r) = Date k \<and> lo \<le> k \<and> k \<le> hi) \<longleftrightarrow> timestamp r \<noteq> None"
    if r: "r \<in> set (rows d)" for r
  proof (cases "timestamp r")
    case None
    then show ?thesis by (simp add: cell_None)
  next
    case (Some v)
    from bounds_enclose_rows [OF b z d r Some] Some z [OF d] show ?thesis
      by (simp add: cell_Some)
  qed
  then have eq: "filter (\<lambda>r. \<exists>k. date_of (cell d r) = Date k \<and> lo \<le> k \<and> k \<le> hi) (rows d) =
                 filter (\<lambda>r. timestamp r \<noteq> None) (rows d)"
    by (intro filter_cong) simp_all
  then have 1: "filter_dates (Some d) lo hi =
                  Some (d\<lparr>rows := filter (\<lambda>r. timestamp r \<noteq> None) (rows d)\<rparr>)"
    by (simp add: filter_dates_Some)
  have 2: "filter_dates (Some d) lo hi = Some d" if "\<forall>r \<in> set (rows d). timestamp r \<noteq> None"
  proof -
    from that have "filter (\<lambda>r. timestamp r \<noteq> None) (rows d) = rows d"
      by (simp add: filter_id_conv)
    with 1 show ?thesis by simp
  qed
  from 1 2 show ?thesis by blast
qed

theorem filter_by_bounds_identity_witness:
  "filter_dates
     (Some \<lparr>tz = None,
            rows = [\<lparr>timestamp = Some 1704877200000000000, cols = 1::int\<rparr>,
                    \<lparr>timestamp = Some 1704067200000000000, cols = 2\<rparr>]\<rparr>) 19723 19753 =
   Some \<lparr>tz = None,
         rows = [\<lparr>timestamp = Some 1704877200000000000, cols = 1::int\<rparr>,
                 \<lparr>timestamp = Some 1704067200000000000, cols = 2\<rparr>]\<rparr>"
proof -
  let ?d = "\<lparr>tz = None,
             rows = [\<lparr>timestamp = Some 1704877200000000000, cols = 1::int\<rparr>,
                     \<lparr>timestamp = Some 1704067200000000000, cols = 2\<rparr>]\<rparr>"
  let ?dfs = "[Some ?d, None,
               Some \<lparr>tz = None,
                     rows = [\<lparr>timestamp = None, cols = 3\<rparr>,
                             \<lparr>timestamp = Some 1706713200000000000, cols = 4\<rparr>]\<rparr>]"
  have b: "get_available_date_range ?dfs = Inr (Some (Date 19723), Some (Date 19753))"
    by (simp add: get_available_date_range_def series_min_def series_max_def ts_gt_def
        wall_clock_def ns_per_day_def)
  have z: "tz d = None" if "Some d \<in> set ?dfs" for d using that by auto
  have d: "Some ?d \<in> set ?dfs" by simp
  have full: "\<forall>r \<in> set (rows ?d). timestamp r \<noteq> None" by simp
  from filter_by_bounds_identity [OF b z d] full show ?thesis by blast
qed

end
